theory Spec2Isabelle
  imports Main
begin

section \<open>Python strings and lists\<close>

text \<open>
  A Python \<open>str\<close> is modelled as a \<open>string\<close> whose characters are code points below 256.
  \<open>is_space\<close> is the set of those code points that CPython treats as whitespace
  (\<open>str.strip()\<close>, \<open>str.isspace()\<close> and the regular expression class \<open>\s\<close> all use it),
  \<open>is_linebreak\<close> the set at which \<open>str.splitlines()\<close> splits.
\<close>

definition is_space :: "char \<Rightarrow> bool" where
  "is_space c = (c \<in> set [CHR 0x09, CHR 0x0A, CHR 0x0B, CHR 0x0C, CHR 0x0D,
                          CHR 0x1C, CHR 0x1D, CHR 0x1E, CHR 0x1F, CHR 0x20,
                          CHR 0x85, CHR 0xA0])"

definition is_linebreak :: "char \<Rightarrow> bool" where
  "is_linebreak c = (c \<in> set [CHR 0x0A, CHR 0x0B, CHR 0x0C, CHR 0x0D,
                              CHR 0x1C, CHR 0x1D, CHR 0x1E, CHR 0x85])"

text \<open>\<open>s.strip()\<close>: leading and trailing whitespace removed.\<close>

definition strip :: "string \<Rightarrow> string" where
  "strip s = rev (dropWhile is_space (rev (dropWhile is_space s)))"

text \<open>\<open>s.startswith(p)\<close>.\<close>

definition startswith :: "string \<Rightarrow> string \<Rightarrow> bool" where
  "startswith s p = (take (length p) s = p)"

text \<open>\<open>sep.join(xs)\<close>.\<close>

fun join :: "string \<Rightarrow> string list \<Rightarrow> string" where
  "join sep [] = []"
| "join sep [x] = x"
| "join sep (x # y # ys) = x @ sep @ join sep (y # ys)"

text \<open>\<open>s.split('\n')\<close>: never empty, one more element than there are newlines.\<close>

fun split_nl :: "string \<Rightarrow> string list" where
  "split_nl [] = [[]]"
| "split_nl (c # cs) =
     (if c = CHR 0x0A then [] # split_nl cs
      else (case split_nl cs of l # ls \<Rightarrow> (c # l) # ls | [] \<Rightarrow> [[c]]))"

text \<open>
  \<open>s.splitlines()\<close>: a line ends at a line break character, \<open>\r\n\<close> counts as one
  break, the breaks are not kept, and no empty line is reported after the last break.
  The first argument is the line read so far.
\<close>

fun splitlines_from :: "string \<Rightarrow> string \<Rightarrow> string list" where
  "splitlines_from cur [] = (if cur = [] then [] else [cur])"
| "splitlines_from cur [c] = (if is_linebreak c then [cur] else [cur @ [c]])"
| "splitlines_from cur (c # d # cs) =
     (if c = CHR 0x0D \<and> d = CHR 0x0A then cur # splitlines_from [] cs
      else if is_linebreak c then cur # splitlines_from [] (d # cs)
      else splitlines_from (cur @ [c]) (d # cs))"

definition splitlines :: "string \<Rightarrow> string list" where
  "splitlines s = splitlines_from [] s"

datatype error = IndexError

text \<open>\<open>xs[i]\<close> on a Python list: a negative index counts from the end, an index out of
  range raises.\<close>

definition py_index :: "'a list \<Rightarrow> int \<Rightarrow> error + 'a" where
  "py_index xs i =
     (if 0 \<le> i \<and> i < int (length xs) then Inr (xs ! nat i)
      else if i < 0 \<and> - int (length xs) \<le> i then Inr (xs ! nat (i + int (length xs)))
      else Inl IndexError)"

text \<open>The slices \<open>xs[:i]\<close> and \<open>xs[i:]\<close>: a negative bound counts from the end, and bounds
  are clamped to the list.\<close>

definition slice_bound :: "'a list \<Rightarrow> int \<Rightarrow> nat" where
  "slice_bound xs i = (if i < 0 then nat (i + int (length xs)) else nat i)"

definition py_take :: "int \<Rightarrow> 'a list \<Rightarrow> 'a list" where
  "py_take i xs = take (slice_bound xs i) xs"

definition py_drop :: "int \<Rightarrow> 'a list \<Rightarrow> 'a list" where
  "py_drop i xs = drop (slice_bound xs i) xs"

section \<open>Method body extraction\<close>

text \<open>
  The \<open>for\<close> loop of \<open>extract_full_method_code\<close> over \<open>range(start_idx, len(java_code_lines))\<close>.
  The state is \<open>method_lines\<close>, \<open>open_braces\<close> and \<open>started\<close>; \<open>break\<close> returns the lines
  gathered so far.
\<close>

fun extract_loop ::
  "string list \<Rightarrow> int list \<Rightarrow> string list \<Rightarrow> int \<Rightarrow> bool \<Rightarrow> error + string list" where
  "extract_loop java_code_lines [] method_lines open_braces started = Inr method_lines"
| "extract_loop java_code_lines (i # is) method_lines open_braces started =
     (case py_index java_code_lines i of
        Inl e \<Rightarrow> Inl e
      | Inr line \<Rightarrow>
          (let method_lines' = method_lines @ [line];
               open_braces' = open_braces + int (count_list line (CHR ''{''))
                                          - int (count_list line (CHR ''}''));
               started' = (started \<or> CHR ''{'' \<in> set line)
           in if started' \<and> open_braces' = 0 then Inr method_lines'
              else extract_loop java_code_lines is method_lines' open_braces' started'))"

definition extract_full_method_code :: "string list \<Rightarrow> int \<Rightarrow> error + string" where
  "extract_full_method_code java_code_lines start_line =
     (let start_idx = start_line - 1
      in case extract_loop java_code_lines [start_idx ..  int (length java_code_lines) - 1]
                [] 0 False of
           Inl e \<Rightarrow> Inl e
         | Inr method_lines \<Rightarrow> Inr (join ''\<newline>'' method_lines))"

text \<open>The words of the specification: the running count of opening minus closing braces
  over some lines, whether an opening brace has been seen in them, and the stop condition
  after them.\<close>

definition brace_delta :: "string \<Rightarrow> int" where
  "brace_delta line = int (count_list line (CHR ''{'')) - int (count_list line (CHR ''}''))"

definition running_count :: "string list \<Rightarrow> int" where
  "running_count ls = sum_list (map brace_delta ls)"

definition brace_seen :: "string list \<Rightarrow> bool" where
  "brace_seen ls = (\<exists>l \<in> set ls. CHR ''{'' \<in> set l)"

definition stops_after :: "string list \<Rightarrow> bool" where
  "stops_after ls = (brace_seen ls \<and> running_count ls = 0)"

text \<open>The same loop read on the lines themselves: \<open>pre\<close> holds the lines gathered so
  far, and the loop stops after the first line at which the stop condition holds.\<close>

fun scan_lines :: "string list \<Rightarrow> string list \<Rightarrow> string list" where
  "scan_lines pre [] = pre"
| "scan_lines pre (l # ls) =
     (if stops_after (pre @ [l]) then pre @ [l] else scan_lines (pre @ [l]) ls)"

section \<open>Documentation presence check\<close>

text \<open>The \<open>while index >= 0\<close> loop of \<open>has_javadoc\<close>.\<close>

function has_javadoc_loop :: "string list \<Rightarrow> int \<Rightarrow> error + bool" where
  "has_javadoc_loop java_code_lines index =
     (if index \<ge> 0 then
        (case py_index java_code_lines index of
           Inl e \<Rightarrow> Inl e
         | Inr l \<Rightarrow>
             (let line = strip l
              in if line = [] then has_javadoc_loop java_code_lines (index - 1)
                 else if startswith line ''/**'' then Inr True
                 else if startswith line ''//'' \<or> startswith line ''/*'' then Inr False
                 else Inr False))
      else Inr False)"
  by pat_completeness auto
termination
  by (relation "measure (\<lambda>(ls, index). nat (index + 1))") auto

declare has_javadoc_loop.simps [simp del]

definition has_javadoc :: "string list \<Rightarrow> int \<Rightarrow> error + bool" where
  "has_javadoc java_code_lines line_number = has_javadoc_loop java_code_lines (line_number - 2)"

section \<open>Insertion\<close>

text \<open>The \<open>while insert_at > 0\<close> loop of \<open>insert_javadoc\<close>, which walks upward past
  annotation lines.\<close>

function find_insert_at :: "string list \<Rightarrow> int \<Rightarrow> error + int" where
  "find_insert_at java_code_lines insert_at =
     (if insert_at > 0 then
        (case py_index java_code_lines (insert_at - 1) of
           Inl e \<Rightarrow> Inl e
         | Inr l \<Rightarrow>
             (let line = strip l
              in if startswith line ''@'' then find_insert_at java_code_lines (insert_at - 1)
                 else Inr insert_at))
      else Inr insert_at)"
  by pat_completeness auto
termination
  by (relation "measure (\<lambda>(ls, insert_at). nat insert_at)") auto

declare find_insert_at.simps [simp del]

text \<open>\<open>re.match(r'^(\s*)', method_line).group(1)\<close>: the longest run of whitespace at the
  start of the line; the pattern always matches.\<close>

definition indent_of :: "string \<Rightarrow> string" where
  "indent_of method_line = takeWhile is_space method_line"

definition insert_javadoc :: "string list \<Rightarrow> int \<Rightarrow> string \<Rightarrow> error + string list" where
  "insert_javadoc java_code_lines line_number javadoc =
     (case find_insert_at java_code_lines (line_number - 1) of
        Inl e \<Rightarrow> Inl e
      | Inr insert_at \<Rightarrow>
          (case py_index java_code_lines (line_number - 1) of
             Inl e \<Rightarrow> Inl e
           | Inr method_line \<Rightarrow>
               (let indent = indent_of method_line;
                    javadoc_lines = [indent @ strip line. line \<leftarrow> split_nl javadoc, strip line \<noteq> []]
                in Inr (py_take insert_at java_code_lines @ javadoc_lines
                          @ py_drop insert_at java_code_lines))))"

text \<open>The splice as the specification words it: the comment's lines as they are, each
  non-empty one prefixed with the indentation of the declaration line, placed above the
  annotation lines that directly precede the declaration.\<close>

definition annotation_line :: "string \<Rightarrow> bool" where
  "annotation_line l = startswith (strip l) ''@''"

definition insertion_point :: "string list \<Rightarrow> nat \<Rightarrow> nat" where
  "insertion_point ls n = (n - 1) - length (takeWhile annotation_line (rev (take (n - 1) ls)))"

definition splice_verbatim :: "string list \<Rightarrow> nat \<Rightarrow> string \<Rightarrow> string list" where
  "splice_verbatim ls n comment =
     take (insertion_point ls n) ls
       @ map (\<lambda>l. if l = [] then l else indent_of (ls ! (n - 1)) @ l) (split_nl comment)
       @ drop (insertion_point ls n) ls"

section \<open>Generation\<close>

text \<open>What the program writes to the terminal: a printed line, a piece of code handed
  to the syntax highlighter, or the prompt of \<open>input\<close>.\<close>

datatype terminal_output = Print string | Highlight string | InputPrompt string

text \<open>The outcome of the remote call and of reading the content of its first choice:
  an exception (with its message) or the content.\<close>

datatype remote_result = Raised string | Content string

definition separator :: string where
  "separator = ''\<newline> ------- ================== ------- \<newline>''"

definition prompt_user_for_description ::
  "string \<Rightarrow> string \<Rightarrow> string \<Rightarrow> string \<Rightarrow> terminal_output list \<times> string" where
  "prompt_user_for_description typed class_hierarchy method_name method_code =
     ([Print (''\<newline>No JavaDoc found for method '' @ [CHR 0x27] @ method_name @ [CHR 0x27]
                @ '' ('' @ class_hierarchy @ '').''),
       Print separator, Highlight method_code, Print separator,
       InputPrompt (''Please provide a brief description for the method '' @ [CHR 0x27]
                      @ method_name @ [CHR 0x27] @ '': '')],
      typed)"

definition build_prompt :: "string \<Rightarrow> string \<Rightarrow> string \<Rightarrow> string" where
  "build_prompt class_hierarchy method_code user_description =
     ''Generate a JavaDoc comment for the following Java method. The method is situated in: ''
       @ [CHR 0x60] @ class_hierarchy @ [CHR 0x60] @ '' performs the following: ''
       @ user_description @ ''\<newline>\<newline>Method:\<newline>'' @ replicate 3 (CHR 0x60)
       @ ''\<newline>'' @ method_code @ ''\<newline>'' @ replicate 3 (CHR 0x60)
       @ ''\<newline>\<newline>JavaDoc:''"

text \<open>The clean-up of the raw response inside the \<open>try\<close> block.\<close>

definition clean_javadoc :: "string \<Rightarrow> string" where
  "clean_javadoc content =
     (let raw_javadoc = strip content;
          lines = [strip line. line \<leftarrow> splitlines raw_javadoc, strip line \<noteq> []]
      in join ''\<newline>'' lines)"

text \<open>The lines kept by the clean-up, as the specification words it: each line trimmed,
  the lines that are empty after trimming dropped.\<close>

definition nonblank_trimmed :: "string list \<Rightarrow> string list" where
  "nonblank_trimmed ls = [strip l. l \<leftarrow> ls, strip l \<noteq> []]"

text \<open>\<open>remote\<close> is the chat completion service: it receives the user message (the system
  message, the model name, the temperature and the token cap are constants of the call).\<close>

definition generate_javadoc ::
  "(string \<Rightarrow> remote_result) \<Rightarrow> string \<Rightarrow> string \<Rightarrow> string \<Rightarrow> terminal_output list \<times> string option" where
  "generate_javadoc remote class_hierarchy method_code user_description =
     (case remote (build_prompt class_hierarchy method_code user_description) of
        Content content \<Rightarrow> ([], Some (clean_javadoc content))
      | Raised e \<Rightarrow> ([Print (''Error generating JavaDoc: '' @ e)], None))"

section \<open>Method discovery\<close>

text \<open>
  The parser is a library: the model takes what the program reads from its tree. A method
  declaration has a name, a position, parameters, modifiers and a return type, which is
  \<open>None\<close> for a \<open>void\<close> method and otherwise a type node, kept here as its \<open>str\<close>
  rendering. The walk of the tree yields pairs of a path (the ancestors, outermost first)
  and a node.
\<close>

record position =
  pos_line :: int
  pos_column :: int

record method_declaration =
  node_name :: string
  node_position :: position
  node_parameters :: "string list"
  node_return_type :: "string option"
  node_modifiers :: "string list"

datatype node =
    MethodDeclaration method_declaration
  | ClassDeclaration "string list" string
  | InterfaceDeclaration "string list" string
  | EnumDeclaration "string list" string
  | AnnotationDeclaration "string list" string
  | OtherNode

record method_entry =
  name :: string
  position :: position
  parameters :: "string list"
  return_type :: "string option"
  modifiers :: "string list"
  hierarchy :: string

definition is_getter :: "method_declaration \<Rightarrow> bool" where
  "is_getter method =
     ((startswith (node_name method) ''get'' \<or> startswith (node_name method) ''is'') \<and>
      length (node_parameters method) = 0 \<and>
      node_return_type method \<noteq> None)"

definition is_setter :: "method_declaration \<Rightarrow> bool" where
  "is_setter method =
     (startswith (node_name method) ''set'' \<and>
      length (node_parameters method) = 1 \<and>
      (node_return_type method = None \<or> node_return_type method = Some ''void''))"

text \<open>The inner loop over the ancestors of a method.\<close>

fun class_hierarchy_loop :: "node list \<Rightarrow> string list \<Rightarrow> string list" where
  "class_hierarchy_loop [] class_hierarchy = class_hierarchy"
| "class_hierarchy_loop (ClassDeclaration ancestor_modifiers ancestor_name # path) class_hierarchy =
     (let mods = (if ancestor_modifiers \<noteq> [] then join '' '' ancestor_modifiers else [])
      in class_hierarchy_loop path
           (class_hierarchy @ [strip (mods @ '' class '' @ ancestor_name)]))"
| "class_hierarchy_loop (ancestor # path) class_hierarchy =
     class_hierarchy_loop path class_hierarchy"

definition full_hierarchy :: "node list \<Rightarrow> string" where
  "full_hierarchy path = join '' > '' (class_hierarchy_loop path [])"

fun get_method_positions_loop ::
  "(node list \<times> node) list \<Rightarrow> method_entry list \<Rightarrow> method_entry list" where
  "get_method_positions_loop [] method_positions = method_positions"
| "get_method_positions_loop ((path, MethodDeclaration method) # tree) method_positions =
     (if is_getter method \<or> is_setter method
      then get_method_positions_loop tree method_positions
      else get_method_positions_loop tree
             (method_positions @
                [\<lparr>name = node_name method, position = node_position method,
                  parameters = node_parameters method, return_type = node_return_type method,
                  modifiers = node_modifiers method, hierarchy = full_hierarchy path\<rparr>]))"
| "get_method_positions_loop ((path, other) # tree) method_positions =
     get_method_positions_loop tree method_positions"

definition get_method_positions :: "(node list \<times> node) list \<Rightarrow> method_entry list" where
  "get_method_positions tree = get_method_positions_loop tree []"



definition entry_of :: "node list \<Rightarrow> method_declaration \<Rightarrow> method_entry" where
  "entry_of path method =
     \<lparr>name = node_name method, position = node_position method,
      parameters = node_parameters method, return_type = node_return_type method,
      modifiers = node_modifiers method, hierarchy = full_hierarchy path\<rparr>"

fun methods_of :: "(node list \<times> node) list \<Rightarrow> (node list \<times> method_declaration) list" where
  "methods_of [] = []"
| "methods_of ((path, MethodDeclaration method) # tree) = (path, method) # methods_of tree"
| "methods_of ((path, other) # tree) = methods_of tree"

definition render_type :: "string list \<Rightarrow> string \<Rightarrow> string" where
  "render_type mods nm = strip (join '' '' mods @ '' class '' @ nm)"

fun enclosing_types :: "node list \<Rightarrow> (string list \<times> string) list" where
  "enclosing_types [] = []"
| "enclosing_types (ClassDeclaration mods nm # path) = (mods, nm) # enclosing_types path"
| "enclosing_types (InterfaceDeclaration mods nm # path) = (mods, nm) # enclosing_types path"
| "enclosing_types (EnumDeclaration mods nm # path) = (mods, nm) # enclosing_types path"
| "enclosing_types (AnnotationDeclaration mods nm # path) = (mods, nm) # enclosing_types path"
| "enclosing_types (ancestor # path) = enclosing_types path"

fun enclosing_classes :: "node list \<Rightarrow> (string list \<times> string) list" where
  "enclosing_classes [] = []"
| "enclosing_classes (ClassDeclaration mods nm # path) = (mods, nm) # enclosing_classes path"
| "enclosing_classes (ancestor # path) = enclosing_classes path"

text \<open>The hierarchy as the specification words it: every enclosing type rendered.\<close>

definition hierarchy_of_enclosing_types :: "node list \<Rightarrow> string" where
  "hierarchy_of_enclosing_types path =
     join '' > '' (map (\<lambda>(mods, nm). render_type mods nm) (enclosing_types path))"

section \<open>The main loop\<close>

text \<open>\<open>method_positions.sort(key=..., reverse=True)\<close>: a stable sort, in which methods
  of one line keep their order.\<close>

definition sort_by_line_reverse :: "method_entry list \<Rightarrow> method_entry list" where
  "sort_by_line_reverse method_positions =
     rev (sort_key (\<lambda>m. pos_line (position m)) (rev method_positions))"

text \<open>
  The \<open>for method in method_positions\<close> loop of \<open>main\<close>. The state is the line buffer and
  what has been written to the terminal. \<open>typed k\<close> is what the user types at the
  \<open>k\<close>-th prompt and \<open>remote k\<close> the service's behaviour at the \<open>k\<close>-th call.
\<close>

fun process_methods ::
  "(nat \<Rightarrow> string) \<Rightarrow> (nat \<Rightarrow> string \<Rightarrow> remote_result) \<Rightarrow> nat \<Rightarrow> method_entry list
     \<Rightarrow> string list \<times> terminal_output list \<Rightarrow> error + string list \<times> terminal_output list" where
  "process_methods typed remote k [] state = Inr state"
| "process_methods typed remote k (method # methods) (java_code_lines, out) =
     (let line_number = pos_line (position method)
      in case has_javadoc java_code_lines line_number of
           Inl e \<Rightarrow> Inl e
         | Inr True \<Rightarrow> process_methods typed remote k methods (java_code_lines, out)
         | Inr False \<Rightarrow>
             (case extract_full_method_code java_code_lines line_number of
                Inl e \<Rightarrow> Inl e
              | Inr method_code_snippet \<Rightarrow>
                  (let (out1, user_description) =
                         prompt_user_for_description (typed k) (hierarchy method) (name method)
                           method_code_snippet;
                       (out2, javadoc) =
                         generate_javadoc (remote k) (hierarchy method) method_code_snippet
                           user_description
                   in if javadoc \<noteq> None \<and> javadoc \<noteq> Some []
                      then (case insert_javadoc java_code_lines line_number (the javadoc) of
                              Inl e \<Rightarrow> Inl e
                            | Inr java_code_lines' \<Rightarrow>
                                process_methods typed remote (Suc k) methods
                                  (java_code_lines',
                                   out @ out1 @ out2 @
                                     [Print (''JavaDoc added for method '' @ [CHR 0x27]
                                               @ name method @ [CHR 0x27] @ ''.''),
                                      Print separator, Highlight (the javadoc), Print separator]))
                      else process_methods typed remote (Suc k) methods
                             (java_code_lines,
                              out @ out1 @ out2 @
                                [Print (''Failed to generate JavaDoc for method '' @ [CHR 0x27]
                                          @ name method @ [CHR 0x27] @ ''.'')]))))"

text \<open>
  \<open>main\<close> for a file that exists, from its text and the walk of its parse tree to the
  text written back to \<open>java_file_path\<close> and what is printed. Reading and writing the
  file, and the parser, are outside the model.
\<close>

definition main ::
  "(nat \<Rightarrow> string) \<Rightarrow> (nat \<Rightarrow> string \<Rightarrow> remote_result) \<Rightarrow> string \<Rightarrow> string
     \<Rightarrow> (node list \<times> node) list \<Rightarrow> error + string \<times> terminal_output list" where
  "main typed remote java_file_path java_code tree =
     (let java_code_lines = split_nl java_code;
          method_positions = sort_by_line_reverse (get_method_positions tree)
      in case process_methods typed remote 0 method_positions (java_code_lines, []) of
           Inl e \<Rightarrow> Inl e
         | Inr (java_code_lines', out) \<Rightarrow>
             Inr (join ''\<newline>'' java_code_lines',
                  out @ [Print (''\<newline>Updated Java file saved to '' @ java_file_path)]))"

section \<open>Facts about Python lists\<close>

lemma py_index_nat: "i < length xs \<Longrightarrow> py_index xs (int i) = Inr (xs ! i)"
  by (simp add: py_index_def)

lemma py_index_in_range:
  "0 \<le> i \<Longrightarrow> i < int (length xs) \<Longrightarrow> py_index xs i = Inr (xs ! nat i)"
  by (simp add: py_index_def)

lemma map_nth_upto:
  "0 \<le> s \<Longrightarrow> map (\<lambda>i. ls ! nat i) [s .. int (length ls) - 1] = drop (nat s) ls"
proof (induction "nat (int (length ls) - s)" arbitrary: s)
  case 0
  then show ?case by (simp add: upto.simps)
next
  case (Suc k)
  then have lt: "s < int (length ls)" by linarith
  then have "[s .. int (length ls) - 1] = s # [s + 1 .. int (length ls) - 1]"
    by (simp add: upto.simps)
  moreover have "map (\<lambda>i. ls ! nat i) [s + 1 .. int (length ls) - 1] = drop (nat (s + 1)) ls"
    using Suc by (intro Suc(1)) auto
  moreover have "drop (nat s) ls = ls ! nat s # drop (nat (s + 1)) ls"
    using lt Suc(3) by (simp add: Cons_nth_drop_Suc nat_add_distrib)
  ultimately show ?case by simp
qed

section \<open>Properties of the extraction\<close>

lemma running_count_snoc:
  "running_count (pre @ [l])
     = running_count pre + int (count_list l (CHR ''{'')) - int (count_list l (CHR ''}''))"
  by (simp add: running_count_def brace_delta_def)

lemma brace_seen_snoc: "brace_seen (pre @ [l]) = (brace_seen pre \<or> CHR ''{'' \<in> set l)"
  by (auto simp add: brace_seen_def)

lemma extract_loop_scan:
  "\<forall>i \<in> set idxs. 0 \<le> i \<and> i < int (length ls) \<Longrightarrow>
   extract_loop ls idxs pre (running_count pre) (brace_seen pre)
     = Inr (scan_lines pre (map (\<lambda>i. ls ! nat i) idxs))"
proof (induction idxs arbitrary: pre)
  case Nil
  then show ?case by simp
next
  case (Cons i idxs)
  then have "0 \<le> i" "i < int (length ls)" by auto
  then have idx: "py_index ls i = Inr (ls ! nat i)"
    by (rule py_index_in_range)
  from Cons have rest: "\<forall>i \<in> set idxs. 0 \<le> i \<and> i < int (length ls)" by simp
  show ?case
    using Cons.IH [OF rest, of "pre @ [ls ! nat i]"]
    by (simp add: idx Let_def stops_after_def running_count_snoc brace_seen_snoc)
qed

lemma extract_as_scan:
  assumes "1 \<le> n"
  shows "extract_full_method_code ls n
           = Inr (join ''\<newline>'' (scan_lines [] (drop (nat (n - 1)) ls)))"
proof -
  have "\<forall>i \<in> set [n - 1 .. int (length ls) - 1]. 0 \<le> i \<and> i < int (length ls)"
    using assms by auto
  from extract_loop_scan [OF this, of "[]"] show ?thesis
    using assms
    by (simp add: extract_full_method_code_def running_count_def brace_seen_def map_nth_upto)
qed

lemma scan_lines_stop:
  "k < length rest \<Longrightarrow> stops_after (pre @ take (Suc k) rest) \<Longrightarrow>
   \<forall>j<k. \<not> stops_after (pre @ take (Suc j) rest) \<Longrightarrow>
   scan_lines pre rest = pre @ take (Suc k) rest"
proof (induction rest arbitrary: pre k)
  case Nil
  then show ?case by simp
next
  case (Cons l rest)
  show ?case
  proof (cases k)
    case 0
    with Cons.prems show ?thesis by simp
  next
    case (Suc k')
    with Cons.prems have no: "\<not> stops_after (pre @ [l])" by auto
    have "scan_lines (pre @ [l]) rest = (pre @ [l]) @ take (Suc k') rest"
    proof (rule Cons.IH)
      show "k' < length rest" using Cons.prems Suc by simp
      show "stops_after ((pre @ [l]) @ take (Suc k') rest)" using Cons.prems Suc by simp
      show "\<forall>j<k'. \<not> stops_after ((pre @ [l]) @ take (Suc j) rest)"
      proof (intro allI impI)
        fix j assume "j < k'"
        then have "Suc j < k" using Suc by simp
        with Cons.prems(3) have "\<not> stops_after (pre @ take (Suc (Suc j)) (l # rest))" by blast
        then show "\<not> stops_after ((pre @ [l]) @ take (Suc j) rest)" by simp
      qed
    qed
    with no Suc show ?thesis by simp
  qed
qed

lemma scan_lines_all:
  "\<forall>j<length rest. \<not> stops_after (pre @ take (Suc j) rest) \<Longrightarrow> scan_lines pre rest = pre @ rest"
proof (induction rest arbitrary: pre)
  case Nil
  then show ?case by simp
next
  case (Cons l rest)
  from Cons.prems have no: "\<not> stops_after (pre @ [l])" by auto
  have "scan_lines (pre @ [l]) rest = (pre @ [l]) @ rest"
  proof (rule Cons.IH, intro allI impI)
    fix j assume "j < length rest"
    then have "Suc j < length (l # rest)" by simp
    with Cons.prems have "\<not> stops_after (pre @ take (Suc (Suc j)) (l # rest))" by blast
    then show "\<not> stops_after ((pre @ [l]) @ take (Suc j) rest)" by simp
  qed
  with no show ?case by simp
qed

text \<open>
  Claim C1. From a declaration line \<open>start_line \<ge> 1\<close>, \<open>extract_full_method_code\<close> gathers
  the lines from the declaration line on, counting \<open>{\<close> minus \<open>}\<close> and noting whether a
  \<open>{\<close> has been seen. When there is a first line after which a \<open>{\<close> has been seen and the
  count is zero (line \<open>k\<close>, counted from the declaration line), it returns the lines up to
  and including that line, joined with newlines; when there is no such line, it returns
  every line from the declaration line to the end of the buffer. On the one-line buffer
  \<open>void f() { if (x) { y(); } }\<close> it returns that line.
\<close>

theorem extract_full_method_code_stops_at_first_balanced_line:
  assumes "1 \<le> start_line"
  shows "(\<forall>k. k < length (drop (nat (start_line - 1)) java_code_lines)
              \<and> stops_after (take (Suc k) (drop (nat (start_line - 1)) java_code_lines))
              \<and> (\<forall>j<k. \<not> stops_after
                            (take (Suc j) (drop (nat (start_line - 1)) java_code_lines)))
            \<longrightarrow> extract_full_method_code java_code_lines start_line
                  = Inr (join ''\<newline>''
                           (take (Suc k) (drop (nat (start_line - 1)) java_code_lines))))
         \<and> ((\<forall>j < length (drop (nat (start_line - 1)) java_code_lines).
                 \<not> stops_after (take (Suc j) (drop (nat (start_line - 1)) java_code_lines)))
            \<longrightarrow> extract_full_method_code java_code_lines start_line
                  = Inr (join ''\<newline>'' (drop (nat (start_line - 1)) java_code_lines)))
         \<and> extract_full_method_code [''void f() { if (x) { y(); } }''] 1
           = Inr ''void f() { if (x) { y(); } }''"
proof (intro conjI allI impI)
  fix k
  assume "k < length (drop (nat (start_line - 1)) java_code_lines)
              \<and> stops_after (take (Suc k) (drop (nat (start_line - 1)) java_code_lines))
              \<and> (\<forall>j<k. \<not> stops_after
                            (take (Suc j) (drop (nat (start_line - 1)) java_code_lines)))"
  then show "extract_full_method_code java_code_lines start_line
           = Inr (join ''\<newline>'' (take (Suc k) (drop (nat (start_line - 1)) java_code_lines)))"
    using scan_lines_stop [of k "drop (nat (start_line - 1)) java_code_lines" "[]"] assms
    by (simp add: extract_as_scan)
next
  assume "\<forall>j < length (drop (nat (start_line - 1)) java_code_lines).
            \<not> stops_after (take (Suc j) (drop (nat (start_line - 1)) java_code_lines))"
  then show "extract_full_method_code java_code_lines start_line
           = Inr (join ''\<newline>'' (drop (nat (start_line - 1)) java_code_lines))"
    using scan_lines_all [of "drop (nat (start_line - 1)) java_code_lines" "[]"] assms
    by (simp add: extract_as_scan)
next
  show "extract_full_method_code [''void f() { if (x) { y(); } }''] 1
           = Inr ''void f() { if (x) { y(); } }''"
    by code_simp
qed

theorem extract_full_method_code_stops_at_first_balanced_line_witness:
  "extract_full_method_code
     [''class A {'', ''  void f() {'', ''    if (x) { y(); }'', ''  }'', ''  int z;'', ''}''] 2
     = Inr ''  void f() {\<newline>    if (x) { y(); }\<newline>  }''
   \<and> extract_full_method_code [''void f() {'', ''  if (x) {'', ''}'', ''int z;''] 1
     = Inr ''void f() {\<newline>  if (x) {\<newline>}\<newline>int z;''"
proof
  let ?ls = "[''class A {'', ''  void f() {'', ''    if (x) { y(); }'', ''  }'', ''  int z;'', ''}'']"
  have h1: "(1::int) \<le> 2" by simp
  have h2: "2 < length (drop (nat (2 - 1)) ?ls)" by simp
  have h3: "stops_after (take (Suc 2) (drop (nat (2 - 1)) ?ls))"
    by (simp add: stops_after_def brace_seen_def running_count_def brace_delta_def)
  have h4: "\<forall>j<2. \<not> stops_after (take (Suc j) (drop (nat (2 - 1)) ?ls))"
    by (simp add: numeral_2_eq_2 All_less_Suc stops_after_def brace_seen_def running_count_def
          brace_delta_def)
  from h2 h3 h4
  have prem: "2 < length (drop (nat (2 - 1)) ?ls)
              \<and> stops_after (take (Suc 2) (drop (nat (2 - 1)) ?ls))
              \<and> (\<forall>j<2. \<not> stops_after (take (Suc j) (drop (nat (2 - 1)) ?ls)))"
    by (intro conjI)
  from extract_full_method_code_stops_at_first_balanced_line
         [OF h1, THEN conjunct1, THEN spec, THEN mp, OF prem]
  show "extract_full_method_code ?ls 2 = Inr ''  void f() {\<newline>    if (x) { y(); }\<newline>  }''"
    by simp
next
  let ?ls = "[''void f() {'', ''  if (x) {'', ''}'', ''int z;'']"
  have h1: "(1::int) \<le> 1" by simp
  have prem: "\<forall>j < length (drop (nat (1 - 1)) ?ls).
                \<not> stops_after (take (Suc j) (drop (nat (1 - 1)) ?ls))"
  proof (intro allI impI)
    fix j :: nat
    assume "j < length (drop (nat (1 - 1)) ?ls)"
    then have "j = 0 \<or> j = 1 \<or> j = 2 \<or> j = 3" by auto
    then show "\<not> stops_after (take (Suc j) (drop (nat (1 - 1)) ?ls))"
      by (auto simp add: stops_after_def brace_seen_def running_count_def brace_delta_def)
  qed
  from extract_full_method_code_stops_at_first_balanced_line
         [OF h1, THEN conjunct2, THEN conjunct1, THEN mp, OF prem]
  show "extract_full_method_code ?ls 1 = Inr ''void f() {\<newline>  if (x) {\<newline>}\<newline>int z;''"
    by simp
qed

text \<open>
  Claim C9. When no line from the start line \<open>start_line \<ge> 1\<close> to the end of the buffer
  contains \<open>{\<close>, \<open>extract_full_method_code\<close> returns (it is a total function, and it raises
  nothing here) all the lines from the start line to the last line, joined with newlines.
\<close>

theorem extract_full_method_code_runs_to_end_without_brace:
  assumes "1 \<le> start_line"
    and "\<forall>l \<in> set (drop (nat (start_line - 1)) java_code_lines). CHR ''{'' \<notin> set l"
  shows "extract_full_method_code java_code_lines start_line
           = Inr (join ''\<newline>'' (drop (nat (start_line - 1)) java_code_lines))"
proof -
  have "\<not> stops_after (take (Suc j) (drop (nat (start_line - 1)) java_code_lines))" for j
    using assms(2) by (auto simp add: stops_after_def brace_seen_def dest: in_set_takeD)
  then show ?thesis
    using scan_lines_all [of "drop (nat (start_line - 1)) java_code_lines" "[]"] assms(1)
    by (simp add: extract_as_scan)
qed

theorem extract_full_method_code_runs_to_end_without_brace_witness:
  "extract_full_method_code [''int x;'', ''abstract void f();'', ''int y;''] 2
     = Inr ''abstract void f();\<newline>int y;''"
proof -
  have h1: "(1::int) \<le> 2" by simp
  have h2: "\<forall>l \<in> set (drop (nat (2 - 1)) [''int x;'', ''abstract void f();'', ''int y;'']).
              CHR ''{'' \<notin> set l"
    by simp
  from extract_full_method_code_runs_to_end_without_brace [OF h1 h2]
  show ?thesis by simp
qed

section \<open>Properties of the presence check\<close>

lemma has_javadoc_loop_negative: "index < 0 \<Longrightarrow> has_javadoc_loop ls index = Inr False"
  by (simp add: has_javadoc_loop.simps)

lemma has_javadoc_loop_blank:
  "i < length ls \<Longrightarrow> strip (ls ! i) = [] \<Longrightarrow>
   has_javadoc_loop ls (int i) = has_javadoc_loop ls (int i - 1)"
  by (subst has_javadoc_loop.simps) (simp add: py_index_nat)

lemma has_javadoc_loop_nonblank:
  "i < length ls \<Longrightarrow> strip (ls ! i) \<noteq> [] \<Longrightarrow>
   has_javadoc_loop ls (int i) = Inr (startswith (strip (ls ! i)) ''/**'')"
  by (subst has_javadoc_loop.simps) (simp add: py_index_nat Let_def)

lemma has_javadoc_loop_first_nonblank:
  "i \<le> length ls \<Longrightarrow> j < i \<Longrightarrow> strip (ls ! j) \<noteq> [] \<Longrightarrow>
   \<forall>t. j < t \<and> t < i \<longrightarrow> strip (ls ! t) = [] \<Longrightarrow>
   has_javadoc_loop ls (int i - 1) = Inr (startswith (strip (ls ! j)) ''/**'')"
proof (induction i)
  case 0
  then show ?case by simp
next
  case (Suc i)
  show ?case
  proof (cases "j = i")
    case True
    with Suc.prems show ?thesis by (simp add: has_javadoc_loop_nonblank)
  next
    case False
    with Suc.prems have "j < i" "strip (ls ! i) = []" "i < length ls" by auto
    with Suc show ?thesis by (simp add: has_javadoc_loop_blank)
  qed
qed

lemma has_javadoc_loop_all_blank:
  "i \<le> length ls \<Longrightarrow> \<forall>t<i. strip (ls ! t) = [] \<Longrightarrow>
   has_javadoc_loop ls (int i - 1) = Inr False"
proof (induction i)
  case 0
  then show ?case by (simp add: has_javadoc_loop_negative)
next
  case (Suc i)
  then show ?case by (simp add: has_javadoc_loop_blank)
qed

lemma startswith_line_comment: "startswith s ''//'' \<Longrightarrow> \<not> startswith s ''/**''"
  by (cases s; cases "tl s"; cases "tl (tl s)") (auto simp add: startswith_def)

text \<open>
  Claim C3. For a declaration line within the buffer (or just below it), \<open>has_javadoc\<close>
  scans upward from the line above the declaration and skips the lines that are empty
  after trimming. With \<open>j\<close> the index of the first non-empty line met, the answer is
  whether that line, trimmed, starts with \<open>/**\<close>; so it is false when the line starts
  with \<open>//\<close>, or with \<open>/*\<close> and not \<open>/**\<close>. The answer is false when every line above is
  empty, and false when a doc comment further up is separated from the declaration by
  another non-empty line.
\<close>

theorem has_javadoc_first_nonblank_line_above:
  assumes "line_number \<le> int (length java_code_lines) + 1"
  shows "(\<forall>j. j < nat (line_number - 1) \<and> strip (java_code_lines ! j) \<noteq> [] \<and>
              (\<forall>t. j < t \<and> t < nat (line_number - 1) \<longrightarrow> strip (java_code_lines ! t) = [])
            \<longrightarrow> has_javadoc java_code_lines line_number
                  = Inr (startswith (strip (java_code_lines ! j)) ''/**'')
              \<and> (startswith (strip (java_code_lines ! j)) ''//''
                   \<longrightarrow> has_javadoc java_code_lines line_number = Inr False)
              \<and> (startswith (strip (java_code_lines ! j)) ''/*''
                   \<and> \<not> startswith (strip (java_code_lines ! j)) ''/**''
                   \<longrightarrow> has_javadoc java_code_lines line_number = Inr False))
       \<and> ((\<forall>t < nat (line_number - 1). strip (java_code_lines ! t) = [])
            \<longrightarrow> has_javadoc java_code_lines line_number = Inr False)
       \<and> has_javadoc [''/** Documented. */'', ''int x;'', ''void f() {}''] 3 = Inr False"
proof (intro conjI allI impI)
  fix j
  assume j: "j < nat (line_number - 1) \<and> strip (java_code_lines ! j) \<noteq> [] \<and>
     (\<forall>t. j < t \<and> t < nat (line_number - 1) \<longrightarrow> strip (java_code_lines ! t) = [])"
  then have n: "1 \<le> line_number" by linarith
  have le: "nat (line_number - 1) \<le> length java_code_lines" using assms by linarith
  have "has_javadoc_loop java_code_lines (int (nat (line_number - 1)) - 1)
          = Inr (startswith (strip (java_code_lines ! j)) ''/**'')"
    using has_javadoc_loop_first_nonblank [OF le, of j] j by blast
  then show r: "has_javadoc java_code_lines line_number
          = Inr (startswith (strip (java_code_lines ! j)) ''/**'')"
    using n by (simp add: has_javadoc_def)
  show "has_javadoc java_code_lines line_number = Inr False"
    if "startswith (strip (java_code_lines ! j)) ''//''"
    using r that by (simp add: startswith_line_comment)
  show "has_javadoc java_code_lines line_number = Inr False"
    if "startswith (strip (java_code_lines ! j)) ''/*''
          \<and> \<not> startswith (strip (java_code_lines ! j)) ''/**''"
    using r that by simp
next
  assume blank: "\<forall>t < nat (line_number - 1). strip (java_code_lines ! t) = []"
  show "has_javadoc java_code_lines line_number = Inr False"
  proof (cases "1 \<le> line_number")
    case True
    have le: "nat (line_number - 1) \<le> length java_code_lines" using assms by linarith
    from has_javadoc_loop_all_blank [OF le blank] True show ?thesis
      by (simp add: has_javadoc_def)
  next
    case False
    then show ?thesis by (simp add: has_javadoc_def has_javadoc_loop_negative)
  qed
next
  show "has_javadoc [''/** Documented. */'', ''int x;'', ''void f() {}''] 3 = Inr False"
    by (simp add: has_javadoc_def has_javadoc_loop.simps py_index_def strip_def is_space_def
          startswith_def)
qed

theorem has_javadoc_first_nonblank_line_above_witness:
  "has_javadoc [''/** Documented. */'', '''', ''  '', ''void f() {}''] 4 = Inr True
   \<and> has_javadoc [''// not a doc comment'', '''', ''void f() {}''] 3 = Inr False
   \<and> has_javadoc [''/* not a doc comment */'', ''void f() {}''] 2 = Inr False
   \<and> has_javadoc ['''', ''  '', ''void f() {}''] 3 = Inr False"
proof (intro conjI)
  let ?a = "[''/** Documented. */'', '''', ''  '', ''void f() {}'']"
  have h: "(4::int) \<le> int (length ?a) + 1" by simp
  have prem: "0 < nat (4 - 1) \<and> strip (?a ! 0) \<noteq> [] \<and>
      (\<forall>t. 0 < t \<and> t < nat (4 - 1) \<longrightarrow> strip (?a ! t) = [])"
  proof (intro conjI allI impI)
    show "0 < nat (4 - 1)" by simp
    show "strip (?a ! 0) \<noteq> []" by (simp add: strip_def is_space_def)
    fix t :: nat
    assume "0 < t \<and> t < nat (4 - 1)"
    then have "t = 1 \<or> t = 2" by auto
    then show "strip (?a ! t) = []" by (auto simp add: strip_def is_space_def)
  qed
  from has_javadoc_first_nonblank_line_above [OF h, THEN conjunct1, THEN spec, THEN mp, OF prem]
  show "has_javadoc ?a 4 = Inr True"
    by (simp add: strip_def is_space_def startswith_def)
next
  let ?b = "[''// not a doc comment'', '''', ''void f() {}'']"
  have h: "(3::int) \<le> int (length ?b) + 1" by simp
  have prem: "0 < nat (3 - 1) \<and> strip (?b ! 0) \<noteq> [] \<and>
      (\<forall>t. 0 < t \<and> t < nat (3 - 1) \<longrightarrow> strip (?b ! t) = [])"
  proof (intro conjI allI impI)
    show "0 < nat (3 - 1)" by simp
    show "strip (?b ! 0) \<noteq> []" by (simp add: strip_def is_space_def)
    fix t :: nat
    assume "0 < t \<and> t < nat (3 - 1)"
    then have "t = 1" by auto
    then show "strip (?b ! t) = []" by (simp add: strip_def)
  qed
  from has_javadoc_first_nonblank_line_above [OF h, THEN conjunct1, THEN spec, THEN mp, OF prem]
  show "has_javadoc ?b 3 = Inr False"
    by (simp add: strip_def is_space_def startswith_def)
next
  let ?c = "[''/* not a doc comment */'', ''void f() {}'']"
  have h: "(2::int) \<le> int (length ?c) + 1" by simp
  have prem: "0 < nat (2 - 1) \<and> strip (?c ! 0) \<noteq> [] \<and>
      (\<forall>t. 0 < t \<and> t < nat (2 - 1) \<longrightarrow> strip (?c ! t) = [])"
    by (auto simp add: strip_def is_space_def)
  from has_javadoc_first_nonblank_line_above [OF h, THEN conjunct1, THEN spec, THEN mp, OF prem]
  show "has_javadoc ?c 2 = Inr False"
    by (simp add: strip_def is_space_def startswith_def)
next
  let ?d = "['''', ''  '', ''void f() {}'']"
  have h: "(3::int) \<le> int (length ?d) + 1" by simp
  have prem: "\<forall>t < nat (3 - 1). strip (?d ! t) = []"
  proof (intro allI impI)
    fix t :: nat
    assume "t < nat (3 - 1)"
    then have "t = 0 \<or> t = 1" by auto
    then show "strip (?d ! t) = []" by (auto simp add: strip_def is_space_def)
  qed
  from has_javadoc_first_nonblank_line_above [OF h, THEN conjunct2, THEN conjunct1, THEN mp, OF prem]
  show "has_javadoc ?d 3 = Inr False" .
qed

text \<open>
  Claim C10. With a declaration line number of 1 or less no line precedes the declaration:
  the scan examines no line and \<open>has_javadoc\<close> returns false, whatever the buffer.
\<close>

theorem has_javadoc_no_line_above:
  "line_number \<le> 1 \<Longrightarrow> has_javadoc java_code_lines line_number = Inr False"
  by (simp add: has_javadoc_def has_javadoc_loop_negative)

theorem has_javadoc_no_line_above_witness:
  "has_javadoc [''/** Documented. */'', ''void f() {}''] 1 = Inr False
   \<and> has_javadoc [''/** Documented. */'', ''void f() {}''] (- 3) = Inr False"
proof -
  have h1: "(1::int) \<le> 1" and h2: "(- 3::int) \<le> 1" by simp_all
  from has_javadoc_no_line_above [OF h1] has_javadoc_no_line_above [OF h2]
  show ?thesis by simp
qed

section \<open>Properties of the insertion\<close>

lemma find_insert_at_walk:
  "i \<le> length ls \<Longrightarrow>
   find_insert_at ls (int i)
     = Inr (int (i - length (takeWhile annotation_line (rev (take i ls)))))"
proof (induction i)
  case 0
  then show ?case by (subst find_insert_at.simps) simp
next
  case (Suc i)
  then have lt: "i < length ls" by simp
  then have idx: "py_index ls (int (Suc i) - 1) = Inr (ls ! i)"
    by (simp add: py_index_nat)
  have tk: "rev (take (Suc i) ls) = ls ! i # rev (take i ls)"
    using lt by (simp add: take_Suc_conv_app_nth)
  have len: "length (takeWhile annotation_line (rev (take i ls))) \<le> i"
    by (rule order_trans [OF length_takeWhile_le]) simp
  show ?case
  proof (cases "annotation_line (ls ! i)")
    case True
    have "find_insert_at ls (int (Suc i)) = find_insert_at ls (int (Suc i) - 1)"
      using True
      by (subst find_insert_at.simps) (simp add: idx annotation_line_def del: of_nat_Suc)
    then have "find_insert_at ls (int (Suc i)) = find_insert_at ls (int i)" by simp
    with Suc.IH lt True tk len show ?thesis by simp
  next
    case False
    have "find_insert_at ls (int (Suc i)) = Inr (int (Suc i))"
      using False
      by (subst find_insert_at.simps) (simp add: idx annotation_line_def del: of_nat_Suc)
    with False tk show ?thesis by simp
  qed
qed

lemma insertion_point_annotations:
  assumes "n \<le> length ls" "insertion_point ls n \<le> i" "i < n - 1"
  shows "annotation_line (ls ! i)"
proof -
  let ?m = "n - 1"
  let ?r = "rev (take ?m ls)"
  let ?tw = "takeWhile annotation_line ?r"
  have m: "?m \<le> length ls" using assms by simp
  have lenr: "length ?r = ?m" using m by simp
  have le: "length ?tw \<le> ?m" using length_takeWhile_le [of annotation_line ?r] lenr by simp
  have ip: "insertion_point ls n = ?m - length ?tw" by (simp add: insertion_point_def)
  have lt: "?m - 1 - i < length ?tw" using assms(2,3) le ip by linarith
  have "?tw ! (?m - 1 - i) \<in> set ?tw" using lt by (rule nth_mem)
  then have "annotation_line (?tw ! (?m - 1 - i))" by (rule set_takeWhileD [THEN conjunct2])
  moreover have "?tw ! (?m - 1 - i) = ?r ! (?m - 1 - i)" using lt by (rule takeWhile_nth)
  moreover have "?r ! (?m - 1 - i) = ls ! i"
  proof -
    have a: "?m - 1 - i < length (take ?m ls)" using assms(3) m by simp
    have b: "length (take ?m ls) - Suc (?m - 1 - i) = i" using assms(3) m by simp
    have "?r ! (?m - 1 - i) = take ?m ls ! i"
      using rev_nth [OF a] b by simp
    then show ?thesis using assms(3) by simp
  qed
  ultimately show ?thesis by simp
qed

lemma insertion_point_stop:
  assumes "n \<le> length ls" "0 < insertion_point ls n"
  shows "\<not> annotation_line (ls ! (insertion_point ls n - 1))"
proof -
  let ?m = "n - 1"
  let ?r = "rev (take ?m ls)"
  let ?tw = "takeWhile annotation_line ?r"
  have m: "?m \<le> length ls" using assms by simp
  have lenr: "length ?r = ?m" using m by simp
  have ip: "insertion_point ls n = ?m - length ?tw" by (simp add: insertion_point_def)
  have lt: "length ?tw < length ?r"
    using assms(2) lenr ip by linarith
  then have "\<not> annotation_line (?r ! length ?tw)"
    by (rule nth_length_takeWhile)
  moreover have "?r ! length ?tw = ls ! (?m - 1 - length ?tw)"
    using lt lenr m by (simp add: rev_nth)
  moreover have "?m - 1 - length ?tw = insertion_point ls n - 1"
    using ip by simp
  ultimately show ?thesis by simp
qed

lemma insert_javadoc_in_range:
  assumes "1 \<le> line_number" "line_number \<le> int (length ls)"
  shows "insert_javadoc ls line_number javadoc
     = Inr (take (insertion_point ls (nat line_number)) ls
            @ [indent_of (ls ! (nat line_number - 1)) @ strip l.
                 l \<leftarrow> split_nl javadoc, strip l \<noteq> []]
            @ drop (insertion_point ls (nat line_number)) ls)"
proof -
  define n where "n = nat line_number"
  have n: "1 \<le> n" "n \<le> length ls" using assms by (auto simp add: n_def)
  have eq: "line_number - 1 = int (n - 1)" using assms by (simp add: n_def)
  have f: "find_insert_at ls (int (n - 1)) = Inr (int (insertion_point ls n))"
    using n find_insert_at_walk [of "n - 1" ls] by (simp add: insertion_point_def)
  have p: "py_index ls (int (n - 1)) = Inr (ls ! (n - 1))"
    using n by (intro py_index_nat) simp
  have "insert_javadoc ls line_number javadoc
     = Inr (take (insertion_point ls n) ls
            @ [indent_of (ls ! (n - 1)) @ strip l. l \<leftarrow> split_nl javadoc, strip l \<noteq> []]
            @ drop (insertion_point ls n) ls)"
    unfolding insert_javadoc_def eq f p
    by (simp add: py_take_def py_drop_def slice_bound_def Let_def del: One_nat_def)
  then show ?thesis unfolding n_def .
qed

text \<open>
  Claim C2, as stated, at a concrete input. The claim has the comment's lines placed in
  the buffer, each non-empty one prefixed with the indentation of the declaration line.
  With the declaration \<open>void f() {}\<close> indented by four spaces and the comment
  \<open>/**\<close>, \<open> * Foo.\<close>, \<open> */\<close>, that gives the lines \<open>/**\<close>, \<open> * Foo.\<close> and \<open> */\<close> after four
  spaces each. \<open>insert_javadoc\<close> trims every comment line first, so its second and third
  lines have four spaces where the claim has five.
\<close>

theorem insert_javadoc_comment_lines_counterexample:
  "insert_javadoc [''    void f() {}''] 1 ''/**\<newline> * Foo.\<newline> */''
     = Inr [''    /**'', ''    * Foo.'', ''    */'', ''    void f() {}'']
   \<and> splice_verbatim [''    void f() {}''] 1 ''/**\<newline> * Foo.\<newline> */''
     = [''    /**'', ''     * Foo.'', ''     */'', ''    void f() {}'']
   \<and> insert_javadoc [''    void f() {}''] 1 ''/**\<newline> * Foo.\<newline> */''
     \<noteq> Inr (splice_verbatim [''    void f() {}''] 1 ''/**\<newline> * Foo.\<newline> */'')"
  by code_simp

text \<open>
  Claim C2, amended. For a declaration line within the buffer, \<open>insert_javadoc\<close> returns
  the lines before the insertion point, then the comment's lines, each trimmed of leading
  and trailing whitespace, those empty after trimming dropped, and each prefixed with the
  leading whitespace of the declaration line, then the lines from the insertion point on,
  with no blank line added. The insertion point lies above the declaration line; every
  line between it and the declaration line starts, once trimmed, with \<open>@\<close>, and the line
  just above it, if there is one, does not. With two annotation lines and four spaces of
  indentation the comment lands above both annotations, each of its lines after exactly
  four spaces.
\<close>

theorem insert_javadoc_splices_trimmed_comment_above_annotations:
  assumes "1 \<le> line_number" and "line_number \<le> int (length java_code_lines)"
  shows "insert_javadoc java_code_lines line_number javadoc
           = Inr (take (insertion_point java_code_lines (nat line_number)) java_code_lines
                  @ [indent_of (java_code_lines ! (nat line_number - 1)) @ strip l.
                       l \<leftarrow> split_nl javadoc, strip l \<noteq> []]
                  @ drop (insertion_point java_code_lines (nat line_number)) java_code_lines)
         \<and> insertion_point java_code_lines (nat line_number) < nat line_number
         \<and> (\<forall>i. insertion_point java_code_lines (nat line_number) \<le> i \<and> i < nat line_number - 1
                \<longrightarrow> annotation_line (java_code_lines ! i))
         \<and> (0 < insertion_point java_code_lines (nat line_number)
                \<longrightarrow> \<not> annotation_line
                      (java_code_lines ! (insertion_point java_code_lines (nat line_number) - 1)))
         \<and> insert_javadoc
             [''class A {'', ''    @Override'', ''    @Deprecated'', ''    public void run() {'',
              ''    }'', ''}''] 4 ''/**\<newline>* Runs.\<newline>*/''
           = Inr [''class A {'', ''    /**'', ''    * Runs.'', ''    */'', ''    @Override'',
                  ''    @Deprecated'', ''    public void run() {'', ''    }'', ''}'']"
proof (intro conjI allI impI)
  have n: "nat line_number \<le> length java_code_lines" "0 < nat line_number"
    using assms by auto
  show "insert_javadoc java_code_lines line_number javadoc
           = Inr (take (insertion_point java_code_lines (nat line_number)) java_code_lines
                  @ [indent_of (java_code_lines ! (nat line_number - 1)) @ strip l.
                       l \<leftarrow> split_nl javadoc, strip l \<noteq> []]
                  @ drop (insertion_point java_code_lines (nat line_number)) java_code_lines)"
    using assms by (rule insert_javadoc_in_range)
  show "insertion_point java_code_lines (nat line_number) < nat line_number"
    using n(2) by (simp add: insertion_point_def)
  show "annotation_line (java_code_lines ! i)"
    if "insertion_point java_code_lines (nat line_number) \<le> i \<and> i < nat line_number - 1" for i
    using insertion_point_annotations [OF n(1), of i] that by blast
  show "\<not> annotation_line
           (java_code_lines ! (insertion_point java_code_lines (nat line_number) - 1))"
    if "0 < insertion_point java_code_lines (nat line_number)"
    using n(1) that by (rule insertion_point_stop)
  show "insert_javadoc
             [''class A {'', ''    @Override'', ''    @Deprecated'', ''    public void run() {'',
              ''    }'', ''}''] 4 ''/**\<newline>* Runs.\<newline>*/''
           = Inr [''class A {'', ''    /**'', ''    * Runs.'', ''    */'', ''    @Override'',
                  ''    @Deprecated'', ''    public void run() {'', ''    }'', ''}'']"
    by code_simp
qed

theorem insert_javadoc_splices_trimmed_comment_above_annotations_witness:
  "insert_javadoc [''int x;'', ''  @A'', ''  void f() {}''] 3 (''  Runs.  '' @ ''\<newline>\<newline>'' @ '' Twice.'')
     = Inr [''int x;'', ''  Runs.'', ''  Twice.'', ''  @A'', ''  void f() {}'']"
proof -
  let ?ls = "[''int x;'', ''  @A'', ''  void f() {}'']"
  let ?doc = "''  Runs.  '' @ ''\<newline>\<newline>'' @ '' Twice.''"
  have h1: "(1::int) \<le> 3" by simp
  have h2: "(3::int) \<le> int (length ?ls)" by simp
  have e: "Inr (take (insertion_point ?ls (nat 3)) ?ls
                  @ [indent_of (?ls ! (nat 3 - 1)) @ strip l. l \<leftarrow> split_nl ?doc, strip l \<noteq> []]
                  @ drop (insertion_point ?ls (nat 3)) ?ls)
           = (Inr [''int x;'', ''  Runs.'', ''  Twice.'', ''  @A'', ''  void f() {}'']
                :: error + string list)"
    by code_simp
  from insert_javadoc_splices_trimmed_comment_above_annotations [OF h1 h2, THEN conjunct1] e
  show ?thesis by (rule trans)
qed

section \<open>Properties of the method discovery\<close>

lemma get_method_positions_loop_filter:
  "get_method_positions_loop tree acc
     = acc @ map (\<lambda>(path, method). entry_of path method)
               (filter (\<lambda>(path, method). \<not> (is_getter method \<or> is_setter method))
                  (methods_of tree))"
  by (induction tree acc rule: get_method_positions_loop.induct) (simp_all add: entry_of_def)


lemma class_hierarchy_loop_classes:
  "class_hierarchy_loop path acc
     = acc @ map (\<lambda>(mods, nm). render_type mods nm) (enclosing_classes path)"
  by (induction path acc rule: class_hierarchy_loop.induct) (simp_all add: render_type_def)

lemma full_hierarchy_classes:
  "full_hierarchy path
     = join '' > '' (map (\<lambda>(mods, nm). render_type mods nm) (enclosing_classes path))"
  by (simp add: full_hierarchy_def class_hierarchy_loop_classes)



text \<open>
  Claim C8, as stated, at a concrete input. A method of the interface
  \<open>public interface Shape\<close> has an enclosing type, which the claim renders as
  \<open>public class Shape\<close>; \<open>get_method_positions\<close> looks at class declarations only and gives
  the method the empty hierarchy string.
\<close>

theorem full_hierarchy_interface_counterexample:
  "full_hierarchy [OtherNode, InterfaceDeclaration [''public''] ''Shape'', OtherNode] = []
   \<and> hierarchy_of_enclosing_types
       [OtherNode, InterfaceDeclaration [''public''] ''Shape'', OtherNode]
     = ''public class Shape''
   \<and> map hierarchy (get_method_positions
       [([OtherNode, InterfaceDeclaration [''public''] ''Shape'', OtherNode],
         MethodDeclaration \<lparr>node_name = ''area'',
           node_position = \<lparr>pos_line = 2, pos_column = 5\<rparr>, node_parameters = [],
           node_return_type = Some ''BasicType'', node_modifiers = []\<rparr>)])
     \<noteq> [hierarchy_of_enclosing_types
          [OtherNode, InterfaceDeclaration [''public''] ''Shape'', OtherNode]]"
  by code_simp

text \<open>
  Claim C8, amended. For every discovered method the hierarchy string renders every
  enclosing class declaration of the path (an interface, an enum, an annotation type or any
  other ancestor adds nothing) as its modifiers, \<open>class\<close> and its name, trimmed, and joins
  these, outermost first, with \<open> > \<close>. A method with no enclosing class declaration gets
  the empty string.
\<close>

theorem full_hierarchy_renders_enclosing_classes:
  "map hierarchy (get_method_positions tree)
     = map (\<lambda>(path, method).
              join '' > '' (map (\<lambda>(mods, nm). render_type mods nm) (enclosing_classes path)))
         (filter (\<lambda>(path, method). \<not> (is_getter method \<or> is_setter method)) (methods_of tree))
   \<and> full_hierarchy path
       = join '' > '' (map (\<lambda>(mods, nm). render_type mods nm) (enclosing_classes path))
   \<and> (enclosing_classes path = [] \<longrightarrow> full_hierarchy path = [])
   \<and> full_hierarchy [OtherNode, ClassDeclaration [''public''] ''Outer'', OtherNode,
                      ClassDeclaration [''private'', ''static''] ''Inner'', OtherNode]
       = ''public class Outer > private static class Inner''
   \<and> full_hierarchy [OtherNode, ClassDeclaration [] ''A'', OtherNode] = ''class A''"
proof (intro conjI impI)
  show "map hierarchy (get_method_positions tree)
     = map (\<lambda>(path, method).
              join '' > '' (map (\<lambda>(mods, nm). render_type mods nm) (enclosing_classes path)))
         (filter (\<lambda>(path, method). \<not> (is_getter method \<or> is_setter method)) (methods_of tree))"
    by (simp add: get_method_positions_def get_method_positions_loop_filter entry_of_def
          full_hierarchy_classes case_prod_beta)
  show "full_hierarchy path
       = join '' > '' (map (\<lambda>(mods, nm). render_type mods nm) (enclosing_classes path))"
    by (rule full_hierarchy_classes)
  show "full_hierarchy path = []" if "enclosing_classes path = []"
    using that by (simp add: full_hierarchy_classes)
  show "full_hierarchy [OtherNode, ClassDeclaration [''public''] ''Outer'', OtherNode,
                      ClassDeclaration [''private'', ''static''] ''Inner'', OtherNode]
       = ''public class Outer > private static class Inner''"
    by code_simp
  show "full_hierarchy [OtherNode, ClassDeclaration [] ''A'', OtherNode] = ''class A''"
    by code_simp
qed

theorem full_hierarchy_renders_enclosing_classes_witness:
  "full_hierarchy [OtherNode, EnumDeclaration [''public''] ''Colour'', OtherNode] = []"
proof -
  have h: "enclosing_classes [OtherNode, EnumDeclaration [''public''] ''Colour'', OtherNode] = []"
    by simp
  from full_hierarchy_renders_enclosing_classes
         [THEN conjunct2, THEN conjunct2, THEN conjunct1, THEN mp, OF h]
  show ?thesis .
qed

section \<open>Properties of the clean-up of the generated comment\<close>

lemma splitlines_from_break:
  "is_linebreak c \<Longrightarrow> \<not> (c = CHR 0x0D \<and> (\<exists>t. s = CHR 0x0A # t)) \<Longrightarrow>
   splitlines_from cur (c # s) = cur # splitlines_from [] s"
  by (cases s) auto

lemma splitlines_from_crlf:
  "splitlines_from cur (CHR 0x0D # CHR 0x0A # s) = cur # splitlines_from [] s"
  by simp

lemma splitlines_from_char:
  "\<not> is_linebreak c \<Longrightarrow> splitlines_from cur (c # s) = splitlines_from (cur @ [c]) s"
  by (cases s) (auto simp add: is_linebreak_def)

lemma cr_linebreak: "is_linebreak (CHR 0x0D)" "is_linebreak (CHR 0x0A)"
  by (simp_all add: is_linebreak_def)

lemma linebreak_space: "is_linebreak c \<Longrightarrow> is_space c"
  by (auto simp add: is_linebreak_def is_space_def)

text \<open>The line read so far only prefixes the first line reported.\<close>

lemma splitlines_from_cur:
  "s \<noteq> [] \<Longrightarrow> splitlines_from cur s
     = (cur @ hd (splitlines_from [] s)) # tl (splitlines_from [] s)"
proof (induction s arbitrary: cur)
  case Nil
  then show ?case by simp
next
  case (Cons c s)
  show ?case
  proof (cases "is_linebreak c")
    case True
    show ?thesis
    proof (cases "c = CHR 0x0D \<and> (\<exists>t. s = CHR 0x0A # t)")
      case True
      then show ?thesis by auto
    next
      case False
      with True show ?thesis by (simp add: splitlines_from_break)
    qed
  next
    case False
    show ?thesis
    proof (cases "s = []")
      case True
      with False show ?thesis by simp
    next
      case ne: False
      have "splitlines_from cur (c # s) = splitlines_from (cur @ [c]) s"
        using False by (rule splitlines_from_char)
      also have "\<dots> = ((cur @ [c]) @ hd (splitlines_from [] s)) # tl (splitlines_from [] s)"
        using ne by (rule Cons.IH)
      finally have a: "splitlines_from cur (c # s)
          = (cur @ [c] @ hd (splitlines_from [] s)) # tl (splitlines_from [] s)" by simp
      have "splitlines_from [] (c # s) = splitlines_from ([] @ [c]) s"
        using False by (rule splitlines_from_char)
      also have "\<dots> = (([] @ [c]) @ hd (splitlines_from [] s)) # tl (splitlines_from [] s)"
        using ne by (rule Cons.IH)
      finally have b: "splitlines_from [] (c # s)
          = ([c] @ hd (splitlines_from [] s)) # tl (splitlines_from [] s)" by simp
      show ?thesis unfolding a b by simp
    qed
  qed
qed


lemma strip_Nil: "strip [] = []"
  by (simp add: strip_def)

lemma strip_space_Cons: "is_space c \<Longrightarrow> strip (c # s) = strip s"
  by (simp add: strip_def)

lemma strip_spaces_append: "\<forall>c \<in> set cur. is_space c \<Longrightarrow> strip (cur @ s) = strip s"
  by (induction cur) (simp_all add: strip_space_Cons)

lemma strip_space_snoc:
  assumes "is_space c"
  shows "strip (s @ [c]) = strip s"
proof (cases "\<forall>x \<in> set s. is_space x")
  case True
  have a: "dropWhile is_space (s @ [c]) = []"
    using True assms by (simp add: dropWhile_eq_Nil_conv)
  have b: "dropWhile is_space s = []"
    using True by (simp add: dropWhile_eq_Nil_conv)
  show ?thesis unfolding strip_def a b by simp
next
  case False
  then obtain x where "x \<in> set s" "\<not> is_space x" by blast
  then have "dropWhile is_space (s @ [c]) = dropWhile is_space s @ [c]"
    by (rule dropWhile_append1)
  then show ?thesis using assms by (simp add: strip_def)
qed

lemma nonblank_trimmed_Cons:
  "nonblank_trimmed (l # ls)
     = (if strip l = [] then nonblank_trimmed ls else strip l # nonblank_trimmed ls)"
  by (simp add: nonblank_trimmed_def)

lemma nonblank_trimmed_Nil: "nonblank_trimmed [] = []"
  by (simp add: nonblank_trimmed_def)

lemma nonblank_trimmed_cur:
  assumes "\<forall>c \<in> set cur. is_space c"
  shows "nonblank_trimmed (splitlines_from cur s) = nonblank_trimmed (splitlines_from [] s)"
proof (cases "s = []")
  case True
  have "strip cur = []" using strip_spaces_append [OF assms, of "[]"] by (simp add: strip_Nil)
  with True show ?thesis by (simp add: nonblank_trimmed_Cons nonblank_trimmed_Nil)
next
  case False
  have a: "splitlines_from cur s = (cur @ hd (splitlines_from [] s)) # tl (splitlines_from [] s)"
    using False by (rule splitlines_from_cur)
  have b: "splitlines_from [] s = ([] @ hd (splitlines_from [] s)) # tl (splitlines_from [] s)"
    using False by (rule splitlines_from_cur)
  have "nonblank_trimmed (splitlines_from cur s)
      = nonblank_trimmed (hd (splitlines_from [] s) # tl (splitlines_from [] s))"
    unfolding a by (simp add: nonblank_trimmed_Cons strip_spaces_append [OF assms])
  also have "\<dots> = nonblank_trimmed (splitlines_from [] s)"
    using b by simp
  finally show ?thesis .
qed

lemma nonblank_trimmed_lead:
  assumes "is_space c"
  shows "nonblank_trimmed (splitlines_from [] (c # s)) = nonblank_trimmed (splitlines_from [] s)"
proof (cases "is_linebreak c")
  case True
  show ?thesis
  proof (cases "c = CHR 0x0D \<and> (\<exists>t. s = CHR 0x0A # t)")
    case crlf: True
    then obtain t where t: "c = CHR 0x0D" "s = CHR 0x0A # t" by blast
    have "splitlines_from [] (CHR 0x0A # t) = [] # splitlines_from [] t"
      by (rule splitlines_from_break) (simp_all add: cr_linebreak)
    then show ?thesis
      unfolding t splitlines_from_crlf by (simp add: nonblank_trimmed_Cons strip_Nil)
  next
    case False
    with True have "splitlines_from [] (c # s) = [] # splitlines_from [] s"
      by (rule splitlines_from_break)
    then show ?thesis by (simp add: nonblank_trimmed_Cons strip_Nil)
  qed
next
  case False
  then have "splitlines_from [] (c # s) = splitlines_from ([] @ [c]) s"
    by (rule splitlines_from_char)
  moreover have "nonblank_trimmed (splitlines_from [c] s) = nonblank_trimmed (splitlines_from [] s)"
    using assms by (intro nonblank_trimmed_cur) simp
  ultimately show ?thesis by simp
qed

lemma nonblank_trimmed_trail:
  assumes "is_space c"
  shows "nonblank_trimmed (splitlines_from cur (s @ [c])) = nonblank_trimmed (splitlines_from cur s)"
proof (induction "length s" arbitrary: s cur rule: less_induct)
  case less
  show ?case
  proof (cases s)
    case Nil
    show ?thesis
    proof (cases "is_linebreak c")
      case True
      then show ?thesis
        by (simp add: Nil nonblank_trimmed_Cons nonblank_trimmed_Nil strip_Nil)
    next
      case False
      then show ?thesis using assms
        by (simp add: Nil nonblank_trimmed_Cons nonblank_trimmed_Nil strip_Nil strip_space_snoc
              strip_space_Cons)
    qed
  next
    case (Cons x s')
    show ?thesis
    proof (cases "is_linebreak x")
      case nb: False
      have "splitlines_from cur (x # (s' @ [c])) = splitlines_from (cur @ [x]) (s' @ [c])"
        using nb by (rule splitlines_from_char)
      moreover have "splitlines_from cur (x # s') = splitlines_from (cur @ [x]) s'"
        using nb by (rule splitlines_from_char)
      moreover have "nonblank_trimmed (splitlines_from (cur @ [x]) (s' @ [c]))
                   = nonblank_trimmed (splitlines_from (cur @ [x]) s')"
        by (rule less) (simp add: Cons)
      ultimately show ?thesis by (simp add: Cons del: splitlines_from.simps)
    next
      case lb: True
      show ?thesis
      proof (cases "x = CHR 0x0D \<and> (\<exists>t. s' = CHR 0x0A # t)")
        case True
        then obtain t where t: "x = CHR 0x0D" "s' = CHR 0x0A # t" by blast
        have "nonblank_trimmed (splitlines_from [] (t @ [c])) = nonblank_trimmed (splitlines_from [] t)"
          by (rule less) (simp add: Cons t)
        then show ?thesis
          by (simp add: Cons t splitlines_from_crlf nonblank_trimmed_Cons del: splitlines_from.simps)
      next
        case False
        then have old: "splitlines_from cur (x # s') = cur # splitlines_from [] s'"
          using lb by (intro splitlines_from_break)
        show ?thesis
        proof (cases "x = CHR 0x0D \<and> s' = [] \<and> c = CHR 0x0A")
          case True
          then show ?thesis by (simp add: Cons is_linebreak_def)
        next
          case nocr: False
          have "\<not> (x = CHR 0x0D \<and> (\<exists>t. s' @ [c] = CHR 0x0A # t))"
            using False nocr by (cases s') auto
          then have "splitlines_from cur (x # (s' @ [c])) = cur # splitlines_from [] (s' @ [c])"
            using lb by (intro splitlines_from_break)
          moreover have "nonblank_trimmed (splitlines_from [] (s' @ [c]))
                       = nonblank_trimmed (splitlines_from [] s')"
            by (rule less) (simp add: Cons)
          ultimately show ?thesis using old
            by (simp add: Cons nonblank_trimmed_Cons del: splitlines_from.simps)
        qed
      qed
    qed
  qed
qed

lemma nonblank_trimmed_dropWhile:
  "nonblank_trimmed (splitlines (dropWhile is_space s)) = nonblank_trimmed (splitlines s)"
  by (induction s) (simp_all add: splitlines_def nonblank_trimmed_lead del: splitlines_from.simps)

lemma nonblank_trimmed_rev_dropWhile:
  "nonblank_trimmed (splitlines (rev (dropWhile is_space r))) = nonblank_trimmed (splitlines (rev r))"
  by (induction r) (simp_all add: splitlines_def nonblank_trimmed_trail del: splitlines_from.simps)

lemma nonblank_trimmed_strip:
  "nonblank_trimmed (splitlines (strip s)) = nonblank_trimmed (splitlines s)"
proof -
  have "nonblank_trimmed (splitlines (strip s))
      = nonblank_trimmed (splitlines (rev (rev (dropWhile is_space s))))"
    unfolding strip_def by (rule nonblank_trimmed_rev_dropWhile)
  then show ?thesis by (simp add: nonblank_trimmed_dropWhile)
qed

lemma clean_javadoc_lines:
  "clean_javadoc content = join ''\<newline>'' (nonblank_trimmed (splitlines content))"
proof -
  have "clean_javadoc content = join ''\<newline>'' (nonblank_trimmed (splitlines (strip content)))"
    by (simp add: clean_javadoc_def Let_def nonblank_trimmed_def)
  then show ?thesis by (simp only: nonblank_trimmed_strip)
qed

text \<open>
  Claim C6. The clean-up of a raw response splits it into lines, trims each line, drops the
  lines that are empty after trimming and joins the rest with single newlines (trimming
  the whole response first, as the code does, changes nothing). The response with the
  lines \<open>Foo.\<close> and \<open>@return bar\<close> among blank lines gives \<open>Foo.\<close>, a newline and
  \<open>@return bar\<close>. This is what \<open>generate_javadoc\<close> returns when the remote call gives a
  content.
\<close>

theorem clean_javadoc_collapses_blank_lines:
  "clean_javadoc content = join ''\<newline>'' (nonblank_trimmed (splitlines content))
   \<and> clean_javadoc ''\<newline>\<newline>Foo.\<newline>\<newline>@return bar\<newline>\<newline>''
       = ''Foo.\<newline>@return bar''
   \<and> (remote (build_prompt class_hierarchy method_code user_description) = Content content
        \<longrightarrow> generate_javadoc remote class_hierarchy method_code user_description
              = ([], Some (clean_javadoc content)))"
proof (intro conjI impI)
  show "clean_javadoc content = join ''\<newline>'' (nonblank_trimmed (splitlines content))"
    by (rule clean_javadoc_lines)
  show "clean_javadoc ''\<newline>\<newline>Foo.\<newline>\<newline>@return bar\<newline>\<newline>''
       = ''Foo.\<newline>@return bar''"
    by code_simp
  show "generate_javadoc remote class_hierarchy method_code user_description
              = ([], Some (clean_javadoc content))"
    if "remote (build_prompt class_hierarchy method_code user_description) = Content content"
    using that by (simp add: generate_javadoc_def)
qed

theorem clean_javadoc_collapses_blank_lines_witness:
  "generate_javadoc (\<lambda>prompt. Content ''  /**\<newline>\<newline>   * Moves.  \<newline>   */\<newline>'')
     ''class A'' ''void f() {}'' ''moves''
     = ([], Some ''/**\<newline>* Moves.\<newline>*/'')"
proof -
  let ?remote = "\<lambda>prompt :: string. Content ''  /**\<newline>\<newline>   * Moves.  \<newline>   */\<newline>''"
  have h: "?remote (build_prompt ''class A'' ''void f() {}'' ''moves'')
             = Content ''  /**\<newline>\<newline>   * Moves.  \<newline>   */\<newline>''"
    by simp
  have e: "clean_javadoc ''  /**\<newline>\<newline>   * Moves.  \<newline>   */\<newline>'' = ''/**\<newline>* Moves.\<newline>*/''"
    by code_simp
  from clean_javadoc_collapses_blank_lines
         [THEN conjunct2, THEN conjunct2, THEN mp, of ?remote, OF h]
  show ?thesis unfolding e .
qed

section \<open>Properties of the main loop\<close>

text \<open>
  Claim C7. When the remote call raises, \<open>generate_javadoc\<close> prints the error and returns
  \<open>None\<close>; for a method without documentation the loop of \<open>main\<close> then inserts nothing,
  prints that the generation failed, and goes on with the remaining methods on the same
  line buffer.
\<close>

theorem generation_failure_skips_method:
  assumes "has_javadoc java_code_lines (pos_line (position method)) = Inr False"
    and "extract_full_method_code java_code_lines (pos_line (position method)) = Inr code"
    and "remote k (build_prompt (hierarchy method) code (typed k)) = Raised e"
  shows "generate_javadoc (remote k) (hierarchy method) code (typed k)
           = ([Print (''Error generating JavaDoc: '' @ e)], None)
         \<and> process_methods typed remote k (method # methods) (java_code_lines, out)
           = process_methods typed remote (Suc k) methods
               (java_code_lines,
                out @ fst (prompt_user_for_description (typed k) (hierarchy method)
                             (name method) code)
                    @ [Print (''Error generating JavaDoc: '' @ e),
                       Print (''Failed to generate JavaDoc for method '' @ [CHR 0x27]
                                @ name method @ [CHR 0x27] @ ''.'')])"
proof
  show g: "generate_javadoc (remote k) (hierarchy method) code (typed k)
           = ([Print (''Error generating JavaDoc: '' @ e)], None)"
    using assms(3) by (simp add: generate_javadoc_def)
  have p: "prompt_user_for_description (typed k) (hierarchy method) (name method) code
         = (fst (prompt_user_for_description (typed k) (hierarchy method) (name method) code),
            typed k)"
    by (simp add: prompt_user_for_description_def)
  show "process_methods typed remote k (method # methods) (java_code_lines, out)
           = process_methods typed remote (Suc k) methods
               (java_code_lines,
                out @ fst (prompt_user_for_description (typed k) (hierarchy method)
                             (name method) code)
                    @ [Print (''Error generating JavaDoc: '' @ e),
                       Print (''Failed to generate JavaDoc for method '' @ [CHR 0x27]
                                @ name method @ [CHR 0x27] @ ''.'')])"
    apply (subst process_methods.simps)
    apply (simp only: Let_def assms(1) assms(2) sum.case bool.case)
    apply (subst p)
    apply (simp only: prod.case g)
    apply simp
    done
qed

theorem generation_failure_skips_method_witness:
  "map_sum id fst
     (process_methods (\<lambda>k. ''does it'')
        (\<lambda>k prompt. if k = 0 then Raised ''timed out'' else Content ''/** F. */'') 0
        [\<lparr>name = ''g'', position = \<lparr>pos_line = 3, pos_column = 6\<rparr>, parameters = [],
          return_type = None, modifiers = [], hierarchy = ''class A''\<rparr>,
         \<lparr>name = ''f'', position = \<lparr>pos_line = 1, pos_column = 6\<rparr>, parameters = [],
          return_type = None, modifiers = [], hierarchy = ''class A''\<rparr>]
        ([''void f() {}'', [], ''void g() {}''], []))
   = Inr [''/** F. */'', ''void f() {}'', [], ''void g() {}'']"
proof -
  let ?typed = "\<lambda>k :: nat. ''does it''"
  let ?remote = "\<lambda>(k :: nat) (prompt :: string).
                   if k = 0 then Raised ''timed out'' else Content ''/** F. */''"
  let ?g = "\<lparr>name = ''g'', position = \<lparr>pos_line = 3, pos_column = 6\<rparr>, parameters = [],
          return_type = None, modifiers = [], hierarchy = ''class A''\<rparr>"
  let ?f = "\<lparr>name = ''f'', position = \<lparr>pos_line = 1, pos_column = 6\<rparr>, parameters = [],
          return_type = None, modifiers = [], hierarchy = ''class A''\<rparr>"
  let ?ls = "[''void f() {}'', [], ''void g() {}'']"
  have h1: "has_javadoc ?ls (pos_line (position ?g)) = Inr False" by code_simp
  have h2: "extract_full_method_code ?ls (pos_line (position ?g)) = Inr ''void g() {}''"
    by code_simp
  have h3: "?remote 0 (build_prompt (hierarchy ?g) ''void g() {}'' (?typed 0))
              = Raised ''timed out''"
    by simp
  note step = generation_failure_skips_method
      [of ?ls ?g "''void g() {}''" ?remote 0 ?typed "''timed out''" "[?f]" "[]",
       OF h1 h2 h3, THEN conjunct2]
  have rest: "map_sum id fst
      (process_methods ?typed ?remote (Suc 0) [?f]
         (?ls, [] @ fst (prompt_user_for_description (?typed 0) (hierarchy ?g) (name ?g)
                          ''void g() {}'')
                  @ [Print (''Error generating JavaDoc: '' @ ''timed out''),
                     Print (''Failed to generate JavaDoc for method '' @ [CHR 0x27]
                              @ name ?g @ [CHR 0x27] @ ''.'')]))
      = Inr [''/** F. */'', ''void f() {}'', [], ''void g() {}'']"
    by code_simp
  show ?thesis unfolding step by (rule rest)
qed

lemma insert_javadoc_keeps_lines_above_insertion_point:
  assumes "1 \<le> line_number" and "line_number \<le> int (length ls)"
    and "insert_javadoc ls line_number javadoc = Inr ls'"
    and "i < insertion_point ls (nat line_number)"
  shows "ls' ! i = ls ! i"
proof -
  have "insertion_point ls (nat line_number) \<le> length ls"
    using assms(1,2) by (simp add: insertion_point_def)
  then show ?thesis
    using assms(3,4) insert_javadoc_in_range [OF assms(1,2), of javadoc]
    by (auto simp add: nth_append)
qed

lemma sort_by_line_reverse_not_increasing:
  "sorted (rev (map (\<lambda>m. pos_line (position m)) (sort_by_line_reverse method_positions)))"
  by (simp add: sort_by_line_reverse_def rev_map [symmetric])

text \<open>
  Claim C4, at a concrete input. In the class below both methods carry their annotation on
  the declaration line. The methods are processed from the last line up (\<open>b\<close> at line 3,
  then \<open>a\<close> at line 2), but the insertion for \<open>b\<close> walks up past line 2, which starts with
  \<open>@\<close>, and inserts above it: the declaration of \<open>a\<close> moves from line 2 to line 3, and
  \<open>a\<close> is then processed at a line that no longer holds it. The file written has both
  comments above \<open>a\<close> and none above \<open>b\<close>. Two methods declared on one line are processed
  at the same line number, one after the other.
\<close>

theorem main_insertion_moves_earlier_method:
  "map name (sort_by_line_reverse (get_method_positions
     [([OtherNode], ClassDeclaration [] ''A''),
      ([OtherNode, ClassDeclaration [] ''A'', OtherNode],
         MethodDeclaration \<lparr>node_name = ''a'',
           node_position = \<lparr>pos_line = 2, pos_column = 17\<rparr>, node_parameters = [],
           node_return_type = None, node_modifiers = []\<rparr>),
      ([OtherNode, ClassDeclaration [] ''A'', OtherNode],
         MethodDeclaration \<lparr>node_name = ''b'',
           node_position = \<lparr>pos_line = 3, pos_column = 17\<rparr>, node_parameters = [],
           node_return_type = None, node_modifiers = []\<rparr>)]))
     = [''b'', ''a'']
   \<and> insert_javadoc
       [''class A {'', ''    @Deprecated void a() { }'', ''    @Deprecated void b() { }'', ''}'']
       3 ''/** B. */''
     = Inr [''class A {'', ''    /** B. */'', ''    @Deprecated void a() { }'',
            ''    @Deprecated void b() { }'', ''}'']
   \<and> map_sum id fst
       (main (\<lambda>k. ''does it'')
          (\<lambda>k prompt. Content (if k = 0 then ''/** B. */'' else ''/** A. */''))
          ''A.java''
          ''class A {\<newline>    @Deprecated void a() { }\<newline>    @Deprecated void b() { }\<newline>}''
          [([OtherNode], ClassDeclaration [] ''A''),
           ([OtherNode, ClassDeclaration [] ''A'', OtherNode],
              MethodDeclaration \<lparr>node_name = ''a'',
                node_position = \<lparr>pos_line = 2, pos_column = 17\<rparr>, node_parameters = [],
                node_return_type = None, node_modifiers = []\<rparr>),
           ([OtherNode, ClassDeclaration [] ''A'', OtherNode],
              MethodDeclaration \<lparr>node_name = ''b'',
                node_position = \<lparr>pos_line = 3, pos_column = 17\<rparr>, node_parameters = [],
                node_return_type = None, node_modifiers = []\<rparr>)])
     = Inr ''class A {\<newline>    /** A. */\<newline>    /** B. */\<newline>    @Deprecated void a() { }\<newline>    @Deprecated void b() { }\<newline>}''
   \<and> map (\<lambda>m. pos_line (position m)) (sort_by_line_reverse
       [\<lparr>name = ''a'', position = \<lparr>pos_line = 1, pos_column = 16\<rparr>, parameters = [],
         return_type = None, modifiers = [], hierarchy = ''class A''\<rparr>,
        \<lparr>name = ''b'', position = \<lparr>pos_line = 1, pos_column = 28\<rparr>, parameters = [],
         return_type = None, modifiers = [], hierarchy = ''class A''\<rparr>])
     = [1, 1]"
  by code_simp

end
